theory Spec2Isabelle
  imports Main "HOL-Library.Sublist"
begin

section \<open>Data model of cmd/giouiorg/page.go\<close>

text \<open>
  Go's \<^verbatim>\<open>string\<close> and \<^verbatim>\<open>[]byte\<close> are sequences of 8-bit bytes; both are
  \<^typ>\<open>string\<close> here. The three bytes the program tests for are named.
\<close>

abbreviation NL :: char where "NL \<equiv> CHR 0x0A"
abbreviation CR :: char where "CR \<equiv> CHR 0x0D"
abbreviation TAB :: char where "TAB \<equiv> CHR 0x09"

record frontMatter =
  Title :: string

record page =
  Front :: frontMatter
  Content :: string

text \<open>
  Go errors. \<^verbatim>\<open>errNoPage\<close> is one allocated value that \<^verbatim>\<open>pageHandler\<close> compares by
  identity; every other error of the program (from the file system, \<^verbatim>\<open>fmt.Errorf\<close>,
  \<^verbatim>\<open>errors.New\<close>, the YAML, regexp and template packages, the response writer) is a
  different value with a message. A run-time panic (a slice expression out of range) is
  kept apart.
\<close>

datatype error = ErrNoPage | Err string | Panic string

fun errorText :: "error \<Rightarrow> string" where
  "errorText ErrNoPage = ''no such page''"
| "errorText (Err m) = m"
| "errorText (Panic m) = m"

definition contentRoot :: string where "contentRoot = ''content''"
definition includeRoot :: string where "includeRoot = ''include''"
definition defaultTitle :: string where "defaultTitle = ''Gio - immediate mode GUI in Go''"

text \<open>
  What the program takes from outside: the file system (\<^verbatim>\<open>ioutil.ReadFile\<close>, with the
  message of the error when the read fails), the regexp package (\<^verbatim>\<open>regexp.Compile\<close> and
  \<^verbatim>\<open>Regexp.FindIndex\<close>, the leftmost match as a pair of offsets), \<^verbatim>\<open>yaml.Unmarshal\<close> into
  an empty \<^verbatim>\<open>frontMatter\<close>, \<^verbatim>\<open>markdown.ToHTML\<close> with the parser's \<^verbatim>\<open>ReadIncludeFn\<close>
  callback, \<^verbatim>\<open>docTmpl.ExecuteTemplate\<close> of the template "root", the environment variable
  \<^verbatim>\<open>GAE_APPLICATION\<close>, the global map \<^verbatim>\<open>pages\<close> and the \<^verbatim>\<open>Write\<close> method of the response
  writer (the error it returns, if any). \<^verbatim>\<open>FindIndex\<close> returns offsets inside its
  argument, so the two slice expressions of \<^verbatim>\<open>includeExample\<close> never panic and are
  \<^const>\<open>drop\<close> and \<^const>\<open>take\<close>.
\<close>

record 'r env =
  readFile :: "string \<Rightarrow> string + string"
  regexpCompile :: "string \<Rightarrow> string + 'r"
  findIndex :: "'r \<Rightarrow> string \<Rightarrow> (nat \<times> nat) option"
  yamlUnmarshal :: "string \<Rightarrow> string + frontMatter"
  markdownToHTML :: "(string \<Rightarrow> string \<Rightarrow> string \<Rightarrow> string) \<Rightarrow> string \<Rightarrow> string"
  executeTemplate :: "frontMatter \<Rightarrow> string \<Rightarrow> string + string"
  gaeApplication :: string
  pages :: "string \<rightharpoonup> string"
  responseWrite :: "string \<Rightarrow> string option"

section \<open>Functions of the Go standard library that the program calls\<close>

text \<open>\<^verbatim>\<open>strings.Index\<close>, \<^verbatim>\<open>bytes.Index\<close>: the offset of the first occurrence of \<open>sep\<close>.\<close>

fun bytesIndex :: "string \<Rightarrow> string \<Rightarrow> nat option" where
  "bytesIndex sep [] = (if sep = [] then Some 0 else None)"
| "bytesIndex sep (c # cs) =
     (if prefix sep (c # cs) then Some 0 else map_option Suc (bytesIndex sep cs))"

definition stringsContains :: "string \<Rightarrow> string \<Rightarrow> bool" where
  "stringsContains s sub = (bytesIndex sub s \<noteq> None)"

definition hasSuffix :: "string \<Rightarrow> string \<Rightarrow> bool" where
  "hasSuffix s suf = (length suf \<le> length s \<and> drop (length s - length suf) s = suf)"

text \<open>
  \<^verbatim>\<open>strings.SplitN\<close>, \<^verbatim>\<open>bytes.SplitN\<close> for a non-empty separator (the program splits at
  "," and at "---"): \<open>n = 0\<close> gives nil, \<open>n\<close> is capped at \<open>len(s) + 1\<close>, and at most
  \<open>n - 1\<close> separators are consumed, leftmost first; the last piece is the unsplit rest.
\<close>

fun genSplit :: "string \<Rightarrow> nat \<Rightarrow> string \<Rightarrow> string list" where
  "genSplit sep 0 s = [s]"
| "genSplit sep (Suc k) s =
     (case bytesIndex sep s of
        None \<Rightarrow> [s]
      | Some m \<Rightarrow> take m s # genSplit sep k (drop (m + length sep) s))"

definition splitN :: "string \<Rightarrow> string \<Rightarrow> nat \<Rightarrow> string list" where
  "splitN s sep n = (if n = 0 then [] else genSplit sep (min n (length s + 1) - 1) s)"

text \<open>\<^verbatim>\<open>bytes.Trim\<close>: all leading and all trailing bytes of the cutset are removed.\<close>

definition bytesTrim :: "string \<Rightarrow> string \<Rightarrow> string" where
  "bytesTrim s cutset =
     rev (dropWhile (\<lambda>c. c \<in> set cutset) (rev (dropWhile (\<lambda>c. c \<in> set cutset) s)))"

text \<open>
  \<^verbatim>\<open>bufio.Scanner\<close> with the default split function \<^verbatim>\<open>bufio.ScanLines\<close>: each token is
  the text up to the next newline, one trailing carriage return dropped; a last line
  with no newline is a token when it is not empty. The scanner's buffer grows to
  \<^verbatim>\<open>bufio.MaxScanTokenSize\<close> = 64 * 1024 bytes: when that many bytes hold no newline,
  \<^verbatim>\<open>Scan\<close> returns false (\<^verbatim>\<open>ErrTooLong\<close>) and the loop of \<^verbatim>\<open>undent\<close> ends there.
\<close>

definition maxScanTokenSize :: nat where
  "maxScanTokenSize = 65536"

definition dropCR :: "string \<Rightarrow> string" where
  "dropCR data = (if data \<noteq> [] \<and> last data = CR then butlast data else data)"

function scanLines :: "string \<Rightarrow> string list" where
  "scanLines data =
     (if data = [] then []
      else if maxScanTokenSize \<le> length (takeWhile (\<lambda>c. c \<noteq> NL) data) then []
      else dropCR (takeWhile (\<lambda>c. c \<noteq> NL) data)
             # scanLines (drop 1 (dropWhile (\<lambda>c. c \<noteq> NL) data)))"
  by pat_completeness auto
termination
proof (relation "measure length")
  show "wf (measure length)" by simp
next
  fix data :: string
  assume "data \<noteq> []"
  moreover have "length (dropWhile (\<lambda>c. c \<noteq> NL) data) \<le> length data"
    by (rule length_dropWhile_le)
  ultimately show "(drop 1 (dropWhile (\<lambda>c. c \<noteq> NL) data), data) \<in> measure length"
    by (cases data) auto
qed

declare scanLines.simps [simp del]

text \<open>
  \<^verbatim>\<open>filepath.Clean\<close> on a Unix path, element by element: empty and "." elements go,
  ".." removes the element before it, is dropped at the root of a rooted path and
  is kept at the start of a relative one; the empty result is ".".
  \<^verbatim>\<open>filepath.Join\<close> of two elements cleans them joined by the separator, starting at the
  first non-empty one.
\<close>

fun splitOn :: "char \<Rightarrow> string \<Rightarrow> string list" where
  "splitOn c [] = [[]]"
| "splitOn c (x # xs) =
     (if x = c then [] # splitOn c xs
      else (case splitOn c xs of [] \<Rightarrow> [[x]] | y # ys \<Rightarrow> (x # y) # ys))"

fun joinWith :: "string \<Rightarrow> string list \<Rightarrow> string" where
  "joinWith sep [] = []"
| "joinWith sep [x] = x"
| "joinWith sep (x # y # ys) = x @ sep @ joinWith sep (y # ys)"

fun cleanElems :: "bool \<Rightarrow> string list \<Rightarrow> string list \<Rightarrow> string list" where
  "cleanElems rooted out [] = rev out"
| "cleanElems rooted out (e # es) =
     (if e = [] \<or> e = ''.'' then cleanElems rooted out es
      else if e = ''..'' then
        (case out of
           [] \<Rightarrow> if rooted then cleanElems rooted out es else cleanElems rooted [e] es
         | p # out' \<Rightarrow>
             if p = ''..'' then cleanElems rooted (e # out) es
             else cleanElems rooted out' es)
      else cleanElems rooted (e # out) es)"

definition filepathClean :: "string \<Rightarrow> string" where
  "filepathClean path =
     (if path = [] then ''.''
      else
        let rooted = (hd path = CHR ''/'');
            body = joinWith ''/'' (cleanElems rooted [] (splitOn (CHR ''/'') path))
        in if rooted then CHR ''/'' # body else if body = [] then ''.'' else body)"

definition filepathJoin :: "string \<Rightarrow> string \<Rightarrow> string" where
  "filepathJoin a b =
     (if a \<noteq> [] then filepathClean (a @ ''/'' @ b)
      else if b \<noteq> [] then filepathClean b
      else [])"

text \<open>
  \<^verbatim>\<open>filepath.Ext\<close>: scanning from the end, the suffix from the last dot of the last
  path element; empty when a separator comes first or there is no dot.
\<close>

fun extScan :: "string \<Rightarrow> string \<Rightarrow> string" where
  "extScan acc [] = []"
| "extScan acc (c # cs) =
     (if c = CHR ''/'' then []
      else if c = CHR ''.'' then c # acc
      else extScan (c # acc) cs)"

definition filepathExt :: "string \<Rightarrow> string" where
  "filepathExt path = extScan [] (rev path)"

section \<open>undent\<close>

text \<open>
  The first inner loop of \<^verbatim>\<open>undent\<close>:
  \<^verbatim>\<open>for ntabs < len(line) && line[ntabs] == '\t' { ntabs++ }\<close>.
\<close>

function countTabs :: "nat \<Rightarrow> string \<Rightarrow> nat" where
  "countTabs ntabs line =
     (if ntabs < length line \<and> line ! ntabs = TAB then countTabs (Suc ntabs) line
      else ntabs)"
  by pat_completeness auto
termination
  by (relation "measure (\<lambda>(ntabs, line). length line - ntabs)") auto

declare countTabs.simps [simp del]

text \<open>
  The second inner loop:
  \<^verbatim>\<open>for i < ntabs && len(line) > 0 && line[0] == '\t' { i++; line = line[1:] }\<close>.
\<close>

function stripTabs :: "nat \<Rightarrow> nat \<Rightarrow> string \<Rightarrow> string" where
  "stripTabs i ntabs line =
     (if i < ntabs \<and> 0 < length line \<and> line ! 0 = TAB
      then stripTabs (Suc i) ntabs (drop 1 line)
      else line)"
  by pat_completeness auto
termination
  by (relation "measure (\<lambda>(i, ntabs, line). ntabs - i)") auto

declare stripTabs.simps [simp del]

text \<open>
  The scanner loop with its three variables \<^verbatim>\<open>first\<close>, \<^verbatim>\<open>ntabs\<close> and \<^verbatim>\<open>buf\<close>, over
  the lines the scanner yields.
\<close>

fun undentLoop :: "bool \<Rightarrow> nat \<Rightarrow> string \<Rightarrow> string list \<Rightarrow> string" where
  "undentLoop first ntabs buf [] = buf"
| "undentLoop first ntabs buf (line # rest) =
     (if stringsContains line ''OMIT'' then undentLoop first ntabs buf rest
      else
        let ntabs' = (if first then countTabs ntabs line else ntabs)
        in undentLoop False ntabs' (buf @ stripTabs 0 ntabs' line @ [NL]) rest)"

definition undent :: "string \<Rightarrow> string" where
  "undent text = undentLoop True 0 [] (scanLines text)"

section \<open>regexFor and includeExample\<close>

definition regexFor :: "'r env \<Rightarrow> string \<Rightarrow> error + 'r" where
  "regexFor E r =
     (if length r < 2 \<or> r ! 0 \<noteq> CHR ''/'' \<or> r ! (length r - 1) \<noteq> CHR ''/''
      then Inl (Err ''missing / separators'')
      else (case regexpCompile E (take (length r - 2) (drop 1 r)) of
              Inl m \<Rightarrow> Inl (Err m)
            | Inr re \<Rightarrow> Inr re))"

text \<open>
  The two \<^verbatim>\<open>FindIndex\<close> steps of \<^verbatim>\<open>includeExample\<close>: \<^verbatim>\<open>content[startIdx[0]:]\<close> when the
  start expression matches, then \<^verbatim>\<open>content[:endIdx[1]]\<close> of that when the end
  expression matches in it.
\<close>

definition selectRange :: "'r env \<Rightarrow> 'r \<Rightarrow> 'r \<Rightarrow> string \<Rightarrow> string" where
  "selectRange E startR endR content =
     (let content1 = (case findIndex E startR content of
                        Some startIdx \<Rightarrow> drop (fst startIdx) content
                      | None \<Rightarrow> content)
      in (case findIndex E endR content1 of
            Some endIdx \<Rightarrow> take (snd endIdx) content1
          | None \<Rightarrow> content1))"

text \<open>The last three statements: trim newlines, append one newline, undent.\<close>

definition trimUndent :: "string \<Rightarrow> string" where
  "trimUndent content = undent (bytesTrim content [NL, CR] @ [NL])"

definition includeExample :: "'r env \<Rightarrow> string \<Rightarrow> string \<Rightarrow> error + string" where
  "includeExample E path addr =
     (case readFile E (filepathJoin includeRoot path) of
        Inl m \<Rightarrow> Inl (Err m)
      | Inr content \<Rightarrow>
          if addr \<noteq> [] then
            (let rng = splitN addr '','' 2 in
             if length rng \<noteq> 2 then Inl (Err (''invalid address: '' @ addr))
             else
               (case regexFor E (rng ! 0) of
                  Inl err \<Rightarrow> Inl (Err (rng ! 0 @ '': '' @ errorText err))
                | Inr startR \<Rightarrow>
                    (case regexFor E (rng ! 1) of
                       Inl err \<Rightarrow> Inl (Err (rng ! 1 @ '': '' @ errorText err))
                     | Inr endR \<Rightarrow> Inr (trimUndent (selectRange E startR endR content)))))
          else Inr (trimUndent content))"

section \<open>loadPage and loadMarkdown\<close>

definition loadPage :: "'r env \<Rightarrow> string \<Rightarrow> error + page" where
  "loadPage E content =
     (let split = splitN content ''---'' 3 in
      if length split < 3 \<or> 0 < length (split ! 0)
      then Inr \<lparr>Front = \<lparr>Title = []\<rparr>, Content = content\<rparr>
      else (case yamlUnmarshal E (split ! 1) of
              Inl m \<Rightarrow> Inl (Err m)
            | Inr front \<Rightarrow> Inr \<lparr>Front = front, Content = split ! 2\<rparr>))"

text \<open>
  The closure installed as \<^verbatim>\<open>mdp.Opts.ReadIncludeFn\<close>: it has no error result, and
  puts the text of the error in the place of the content.
\<close>

definition readIncludeFn :: "'r env \<Rightarrow> string \<Rightarrow> string \<Rightarrow> string \<Rightarrow> string" where
  "readIncludeFn E from path addr =
     (case includeExample E path addr of
        Inl err \<Rightarrow> errorText err
      | Inr content \<Rightarrow> content)"

definition loadMarkdown :: "'r env \<Rightarrow> string \<Rightarrow> error + string" where
  "loadMarkdown E url =
     (let path = filepathJoin contentRoot (url @ ''.md'') in
      case readFile E path of
        Inl m \<Rightarrow> Inl (Err m)
      | Inr content \<Rightarrow>
          (case loadPage E content of
             Inl err \<Rightarrow> Inl (Err (path @ '': failed to parse front matter: '' @ errorText err))
           | Inr pg \<Rightarrow>
               let front = (if Title (Front pg) = [] then (Front pg)\<lparr>Title := defaultTitle\<rparr>
                            else Front pg);
                   html = markdownToHTML E (readIncludeFn E) (Content pg)
               in (case executeTemplate E front html of
                     Inl m \<Rightarrow> Inl (Err m)
                   | Inr out \<Rightarrow> Inr out)))"

section \<open>loadDocs, servePage and pageHandler\<close>

text \<open>
  \<^verbatim>\<open>filepath.Walk\<close> calls the function once for each file and directory it visits, with
  the path, whether it is a directory, and the error of visiting it; it stops at the
  first error the function returns and returns it. A visit is that triple. The function
  literal of \<^verbatim>\<open>loadDocs\<close> is \<open>loadDocsVisit\<close>; the two slice expressions panic when the
  path is shorter than they need.
\<close>

type_synonym visit = "string \<times> bool \<times> string option"

definition loadDocsVisit ::
  "'r env \<Rightarrow> string \<Rightarrow> (string \<rightharpoonup> string) \<Rightarrow> visit \<Rightarrow> error + (string \<rightharpoonup> string)" where
  "loadDocsVisit E root ps v =
     (case v of (path, isDir, err) \<Rightarrow>
        (case err of
           Some m \<Rightarrow> Inl (Err m)
         | None \<Rightarrow>
             if isDir \<or> filepathExt path \<noteq> ''.md'' then Inr ps
             else if length path < length root then Inl (Panic ''slice bounds out of range'')
             else if length (drop (length root) path) < length ''.md''
               then Inl (Panic ''slice bounds out of range'')
             else
               (let name = drop (length root) path;
                    name = take (length name - length ''.md'') name
                in case loadMarkdown E name of
                     Inl e \<Rightarrow> Inl e
                   | Inr content \<Rightarrow> Inr (ps(name \<mapsto> content)))))"

fun walkVisits ::
  "'r env \<Rightarrow> string \<Rightarrow> (string \<rightharpoonup> string) \<Rightarrow> visit list \<Rightarrow> error + (string \<rightharpoonup> string)" where
  "walkVisits E root ps [] = Inr ps"
| "walkVisits E root ps (v # vs) =
     (case loadDocsVisit E root ps v of
        Inl e \<Rightarrow> Inl e
      | Inr ps' \<Rightarrow> walkVisits E root ps' vs)"

definition loadDocs :: "'r env \<Rightarrow> string \<Rightarrow> visit list \<Rightarrow> error + (string \<rightharpoonup> string)" where
  "loadDocs E root visits = walkVisits E root (pages E) visits"

text \<open>
  \<^verbatim>\<open>servePage\<close> returns the error, or the bytes that \<^verbatim>\<open>w.Write\<close> accepted.
\<close>

definition writePage :: "'r env \<Rightarrow> string \<Rightarrow> error + string" where
  "writePage E pg = (case responseWrite E pg of Some m \<Rightarrow> Inl (Err m) | None \<Rightarrow> Inr pg)"

definition servePage :: "'r env \<Rightarrow> string \<Rightarrow> error + string" where
  "servePage E path =
     (if gaeApplication E \<noteq> [] then
        (case pages E path of
           None \<Rightarrow> Inl ErrNoPage
         | Some p \<Rightarrow> writePage E p)
      else
        (case loadMarkdown E path of
           Inl err \<Rightarrow> Inl err
         | Inr p \<Rightarrow> writePage E p))"

text \<open>
  What the handler does with a request, given by its URL path: the page is written, or
  the request is handed unchanged to the fallback handler, or the error is logged and
  the response is "failed to serve page" with status 500.
\<close>

datatype response = Written string | Fallback string | InternalServerError string

definition pagePath :: "string \<Rightarrow> string" where
  "pagePath urlPath = (if hasSuffix urlPath ''/'' then urlPath @ ''index'' else urlPath)"

definition pageHandler :: "'r env \<Rightarrow> string \<Rightarrow> response" where
  "pageHandler E urlPath =
     (let path = pagePath urlPath in
      case servePage E path of
        Inr p \<Rightarrow> Written p
      | Inl err \<Rightarrow>
          if err = ErrNoPage then Fallback urlPath
          else InternalServerError (path @ '': '' @ errorText err))"

section \<open>The claims' own words, as definitions\<close>

text \<open>
  Shared-indentation stripping as the specification words it: the lines \<^verbatim>\<open>undent\<close>
  retains are the scanned lines without "OMIT"; the shared indentation is the number of
  leading tabs of the first retained line.
\<close>

definition leadingTabs :: "string \<Rightarrow> nat" where
  "leadingTabs line = length (takeWhile (\<lambda>c. c = TAB) line)"

definition retainedLines :: "string \<Rightarrow> string list" where
  "retainedLines text = filter (\<lambda>line. \<not> stringsContains line ''OMIT'') (scanLines text)"

definition sharedIndent :: "string list \<Rightarrow> nat" where
  "sharedIndent ls = (case ls of [] \<Rightarrow> 0 | line # _ \<Rightarrow> leadingTabs line)"

text \<open>
  Front matter as the specification words it: the content begins with the marker "---"
  and a second marker follows; the header is the text between the two, the body is
  everything after the second.
\<close>

definition frontSplit :: "string \<Rightarrow> (string \<times> string) option" where
  "frontSplit content =
     (if prefix ''---'' content then
        (case bytesIndex ''---'' (drop 3 content) of
           None \<Rightarrow> None
         | Some m \<Rightarrow> Some (take m (drop 3 content), drop (m + 3) (drop 3 content)))
      else None)"

definition loadPageSpec :: "'r env \<Rightarrow> string \<Rightarrow> error + page" where
  "loadPageSpec E content =
     (case frontSplit content of
        None \<Rightarrow> Inr \<lparr>Front = \<lparr>Title = []\<rparr>, Content = content\<rparr>
      | Some (header, body) \<Rightarrow>
          (case yamlUnmarshal E header of
             Inl m \<Rightarrow> Inl (Err m)
           | Inr front \<Rightarrow> Inr \<lparr>Front = front, Content = body\<rparr>))"

text \<open>
  The range of a file delimited by two expressions, in offsets of the file: from the
  start of the first match of the start expression (from offset 0 when there is none) to
  the end of the first match of the end expression in what follows that start (to the
  end of the file when there is none).
\<close>

definition regexRange ::
  "(string \<Rightarrow> (nat \<times> nat) option) \<Rightarrow> (string \<Rightarrow> (nat \<times> nat) option) \<Rightarrow> string \<Rightarrow> string" where
  "regexRange findStart findEnd file =
     (let lo = (case findStart file of Some (a, b) \<Rightarrow> a | None \<Rightarrow> 0);
          hi = (case findEnd (drop lo file) of Some (a, b) \<Rightarrow> lo + b | None \<Rightarrow> length file)
      in take (hi - lo) (drop lo file))"

text \<open>
  An address is split at its first comma; a delimiter has the form \<^verbatim>\<open>/regex/\<close>.
\<close>

definition addrStart :: "string \<Rightarrow> string" where
  "addrStart addr = takeWhile (\<lambda>c. c \<noteq> CHR '','') addr"

definition addrEnd :: "string \<Rightarrow> string" where
  "addrEnd addr = drop 1 (dropWhile (\<lambda>c. c \<noteq> CHR '','') addr)"

definition delimited :: "string \<Rightarrow> bool" where
  "delimited r = (2 \<le> length r \<and> hd r = CHR ''/'' \<and> last r = CHR ''/'')"

definition enclosed :: "string \<Rightarrow> string" where
  "enclosed r = butlast (tl r)"

section \<open>A small site, for concrete runs\<close>

text \<open>
  Two pages and one source file to include; regular expressions without metacharacters
  (found by substring search), a front matter of one optional \<^verbatim>\<open>title:\<close> line, a
  renderer that resolves one include directive \<^verbatim>\<open>{{path}}[address]\<close>, and a template
  of the title and the content.
\<close>

definition exMainGo :: string where
  "exMainGo = ''package main\<newline>'' @ [TAB] @ ''func f(a, b int) {\<newline>'' @ [TAB, TAB] @ ''// OMIT\<newline>''
         @ [TAB, TAB] @ ''return\<newline>'' @ [TAB] @ ''}\<newline>''"

definition exFiles :: "(string \<times> string) list" where
  "exFiles =
     [(''content/index.md'', ''---\<newline>title: Home\<newline>---\<newline>{{main.go}}[/func/,/return/]''),
      (''content/doc/index.md'', ''{{missing.go}}''),
      (''include/main.go'', exMainGo)]"

definition exReadFile :: "string \<Rightarrow> string + string" where
  "exReadFile path =
     (case map_of exFiles path of
        None \<Rightarrow> Inl (''open '' @ path @ '': no such file or directory'')
      | Some content \<Rightarrow> Inr content)"

definition exCompile :: "string \<Rightarrow> string + string" where
  "exCompile r =
     (if list_ex (\<lambda>c. c \<in> set (CHR 0x5C # ''.+*?()|[]{}^$'')) r then Inl ''error parsing regexp''
      else Inr r)"

definition exFindIndex :: "string \<Rightarrow> string \<Rightarrow> (nat \<times> nat) option" where
  "exFindIndex r b =
     (case bytesIndex r b of None \<Rightarrow> None | Some i \<Rightarrow> Some (i, i + length r))"

definition exUnmarshal :: "string \<Rightarrow> string + frontMatter" where
  "exUnmarshal header =
     (let h = bytesTrim header [NL, CR] in
      if h = [] then Inr \<lparr>Title = []\<rparr>
      else if prefix ''title: '' h then Inr \<lparr>Title = drop 7 h\<rparr>
      else Inl ''yaml: unmarshal errors'')"

definition exToHTML :: "(string \<Rightarrow> string \<Rightarrow> string \<Rightarrow> string) \<Rightarrow> string \<Rightarrow> string" where
  "exToHTML readInclude body =
     (case bytesIndex ''{{'' body of
        None \<Rightarrow> ''<p>'' @ body @ ''</p>''
      | Some i \<Rightarrow>
          (case bytesIndex ''}}'' (drop (i + 2) body) of
             None \<Rightarrow> ''<p>'' @ body @ ''</p>''
           | Some j \<Rightarrow>
               (let path = take j (drop (i + 2) body);
                    rest = drop (j + 2) (drop (i + 2) body);
                    addr = (if prefix ''['' rest then takeWhile (\<lambda>c. c \<noteq> CHR '']'') (drop 1 rest)
                            else [])
                in ''<pre>'' @ readInclude '''' path addr @ ''</pre>'')))"

definition exTemplate :: "frontMatter \<Rightarrow> string \<Rightarrow> string + string" where
  "exTemplate front html = Inr (''<title>'' @ Title front @ ''</title>'' @ html)"

definition exEnv :: "string env" where
  "exEnv = \<lparr>readFile = exReadFile, regexpCompile = exCompile, findIndex = exFindIndex,
            yamlUnmarshal = exUnmarshal, markdownToHTML = exToHTML,
            executeTemplate = exTemplate, gaeApplication = [], pages = Map.empty,
            responseWrite = (\<lambda>p. None)\<rparr>"

text \<open>
  The two pages as that site renders them, and the visits of walking its content
  directory.
\<close>

definition exIndexHtml :: string where
  "exIndexHtml = ''<title>Home</title><pre>func f(a, b int) {'' @ [NL, TAB, TAB] @ ''return''
                   @ [NL] @ ''</pre>''"

definition exDocHtml :: string where
  "exDocHtml = ''<title>Gio - immediate mode GUI in Go</title><pre>open include/missing.go: no such file or directory</pre>''"

definition exVisits :: "visit list" where
  "exVisits = [(''content'', True, None), (''content/doc'', True, None),
               (''content/doc/index.md'', False, None), (''content/index.md'', False, None),
               (''content/logo.png'', False, None)]"

section \<open>Library functions: what they compute\<close>

lemma prefix_append_drop: "prefix sep s \<Longrightarrow> sep @ drop (length sep) s = s"
  by (auto simp: prefix_def)

lemma bytesIndex_Some: "bytesIndex sep s = Some m \<Longrightarrow> take m s @ sep @ drop (m + length sep) s = s"
proof (induction s arbitrary: m)
  case Nil
  then show ?case by (simp split: if_splits)
next
  case (Cons c cs)
  show ?case
  proof (cases "prefix sep (c # cs)")
    case True
    with Cons.prems have "m = 0" by simp
    with True show ?thesis using prefix_append_drop [of sep "c # cs"] by simp
  next
    case False
    with Cons.prems obtain k where k: "bytesIndex sep cs = Some k" "m = Suc k" by auto
    from Cons.IH [OF k(1)] k(2) show ?thesis by simp
  qed
qed

lemma bytesIndex_None: "bytesIndex sep s = None \<Longrightarrow> s \<noteq> ps @ sep @ ss"
proof (induction s arbitrary: ps)
  case Nil
  then show ?case by (auto split: if_splits)
next
  case (Cons c cs)
  from Cons.prems have np: "\<not> prefix sep (c # cs)" and n: "bytesIndex sep cs = None"
    by (auto split: if_splits)
  show ?case
  proof (cases ps)
    case Nil
    with np show ?thesis by (auto simp: prefix_def)
  next
    case (Cons p ps')
    with Cons.IH [OF n, of ps'] show ?thesis by auto
  qed
qed

lemma stringsContains_iff: "stringsContains s sub \<longleftrightarrow> (\<exists>ps ss. s = ps @ sub @ ss)"
proof
  assume "stringsContains s sub"
  then obtain m where "bytesIndex sub s = Some m" by (auto simp: stringsContains_def)
  from bytesIndex_Some [OF this] show "\<exists>ps ss. s = ps @ sub @ ss" by metis
next
  assume "\<exists>ps ss. s = ps @ sub @ ss"
  then show "stringsContains s sub"
    using bytesIndex_None [of sub s] by (auto simp: stringsContains_def)
qed

lemma bytesIndex_first: "bytesIndex sep s = Some m \<Longrightarrow> k < m \<Longrightarrow> \<not> prefix sep (drop k s)"
proof (induction s arbitrary: m k)
  case Nil
  then show ?case by (simp split: if_splits)
next
  case (Cons c cs)
  from Cons.prems have np: "\<not> prefix sep (c # cs)" by (auto split: if_splits)
  with Cons.prems obtain j where j: "bytesIndex sep cs = Some j" "m = Suc j" by auto
  show ?case
  proof (cases k)
    case 0
    with np show ?thesis by simp
  next
    case (Suc k')
    with Cons.IH [OF j(1), of k'] Cons.prems j show ?thesis by simp
  qed
qed

lemma stringsContains_drop: "stringsContains (drop k s) sub \<Longrightarrow> stringsContains s sub"
proof -
  assume "stringsContains (drop k s) sub"
  then obtain ps ss where "drop k s = ps @ sub @ ss" by (auto simp: stringsContains_iff)
  then have "s = (take k s @ ps) @ sub @ ss" by (metis append_take_drop_id append_assoc)
  then show ?thesis unfolding stringsContains_iff by blast
qed

lemma bytesIndex_0_iff: "bytesIndex sep s = Some 0 \<longleftrightarrow> prefix sep s"
  by (cases s) auto

lemma bytesIndex_le: "bytesIndex sep s = Some m \<Longrightarrow> m + length sep \<le> length s"
proof (induction s arbitrary: m)
  case Nil
  then show ?case by (simp split: if_splits)
next
  case (Cons c cs)
  then show ?case by (auto split: if_splits dest: prefix_length_le)
qed

section \<open>undent\<close>

lemma countTabs_eq: "n \<le> length line \<Longrightarrow> countTabs n line = n + leadingTabs (drop n line)"
proof (induction n line rule: countTabs.induct)
  case (1 ntabs line)
  show ?case
  proof (cases "ntabs < length line \<and> line ! ntabs = TAB")
    case True
    then have d: "drop ntabs line = TAB # drop (Suc ntabs) line"
      by (metis Cons_nth_drop_Suc)
    from True "1.IH" have "countTabs (Suc ntabs) line = Suc ntabs + leadingTabs (drop (Suc ntabs) line)"
      by simp
    with True d show ?thesis
      by (subst countTabs.simps) (simp add: leadingTabs_def)
  next
    case False
    show ?thesis
    proof (cases "ntabs < length line")
      case True
      with False have "line ! ntabs \<noteq> TAB" by simp
      with True have "leadingTabs (drop ntabs line) = 0"
        by (simp add: leadingTabs_def Cons_nth_drop_Suc [symmetric])
      moreover from False have "countTabs ntabs line = ntabs"
        by (subst countTabs.simps) auto
      ultimately show ?thesis by simp
    next
      case False
      with "1.prems" have "drop ntabs line = []" by simp
      moreover from False have "countTabs ntabs line = ntabs"
        by (subst countTabs.simps) auto
      ultimately show ?thesis by (simp add: leadingTabs_def)
    qed
  qed
qed

lemma countTabs_0: "countTabs 0 line = leadingTabs line"
  using countTabs_eq [of 0 line] by simp

lemma stripTabs_eq: "stripTabs i n line = drop (min (n - i) (leadingTabs line)) line"
proof (induction i n line rule: stripTabs.induct)
  case (1 i ntabs line)
  show ?case
  proof (cases "i < ntabs \<and> 0 < length line \<and> line ! 0 = TAB")
    case True
    then obtain rest where l: "line = TAB # rest" by (cases line) auto
    from True "1.IH" have "stripTabs (Suc i) ntabs (drop 1 line) =
        drop (min (ntabs - Suc i) (leadingTabs (drop 1 line))) (drop 1 line)" by simp
    moreover from True have "ntabs - i = Suc (ntabs - Suc i)" by arith
    moreover from True have "stripTabs i ntabs line = stripTabs (Suc i) ntabs (drop 1 line)"
      by (subst stripTabs.simps) simp
    ultimately show ?thesis using l by (simp add: leadingTabs_def)
  next
    case False
    then have "min (ntabs - i) (leadingTabs line) = 0"
      by (cases line) (auto simp: leadingTabs_def)
    moreover from False have "stripTabs i ntabs line = line"
      by (subst stripTabs.simps) auto
    ultimately show ?thesis by simp
  qed
qed

lemma undentLoop_not_first:
  "undentLoop False n buf ls =
     buf @ concat (map (\<lambda>line. drop (min n (leadingTabs line)) line @ [NL])
                       (filter (\<lambda>line. \<not> stringsContains line ''OMIT'') ls))"
  by (induction ls arbitrary: buf) (simp_all add: stripTabs_eq)

lemma undentLoop_first:
  "undentLoop True 0 buf ls =
     buf @ concat (map (\<lambda>line. drop (min (sharedIndent (filter (\<lambda>line. \<not> stringsContains line ''OMIT'') ls))
                                          (leadingTabs line)) line @ [NL])
                       (filter (\<lambda>line. \<not> stringsContains line ''OMIT'') ls))"
  by (induction ls arbitrary: buf)
     (simp_all add: stripTabs_eq undentLoop_not_first countTabs_0 sharedIndent_def Let_def)

lemma undent_eq:
  "undent text =
     concat (map (\<lambda>line. drop (min (sharedIndent (retainedLines text)) (leadingTabs line)) line @ [NL])
                 (retainedLines text))"
  by (simp add: undent_def undentLoop_first retainedLines_def)

lemma leading_are_tabs: "k \<le> leadingTabs line \<Longrightarrow> take k line = replicate k TAB"
proof (induction line arbitrary: k)
  case Nil
  then show ?case by (simp add: leadingTabs_def)
next
  case (Cons c cs)
  then show ?case by (cases k) (auto simp: leadingTabs_def split: if_splits)
qed


lemma set_dropCR: "set (dropCR l) \<subseteq> set l"
  by (auto simp: dropCR_def dest: in_set_butlastD)

lemma scanLines_no_NL: "line \<in> set (scanLines data) \<Longrightarrow> NL \<notin> set line"
proof (induction data rule: scanLines.induct)
  case (1 data)
  show ?case
  proof (cases "data = [] \<or> maxScanTokenSize \<le> length (takeWhile (\<lambda>c. c \<noteq> NL) data)")
    case True
    then have "scanLines data = []" by (subst scanLines.simps) auto
    with "1.prems" show ?thesis by simp
  next
    case False
    then have "scanLines data = dropCR (takeWhile (\<lambda>c. c \<noteq> NL) data)
        # scanLines (drop 1 (dropWhile (\<lambda>c. c \<noteq> NL) data))"
      by (subst scanLines.simps) auto
    with "1.prems" have "line = dropCR (takeWhile (\<lambda>c. c \<noteq> NL) data)
        \<or> line \<in> set (scanLines (drop 1 (dropWhile (\<lambda>c. c \<noteq> NL) data)))"
      by simp
    then show ?thesis
    proof
      assume "line = dropCR (takeWhile (\<lambda>c. c \<noteq> NL) data)"
      then have "set line \<subseteq> set (takeWhile (\<lambda>c. c \<noteq> NL) data)" by (simp add: set_dropCR)
      then show ?thesis by (auto dest: set_takeWhileD)
    next
      assume "line \<in> set (scanLines (drop 1 (dropWhile (\<lambda>c. c \<noteq> NL) data)))"
      with False "1.IH" show ?thesis by simp
    qed
  qed
qed

lemma splitOn_line: "c \<notin> set l \<Longrightarrow> splitOn c (l @ c # rest) = l # splitOn c rest"
  by (induction l) auto

lemma splitOn_lines:
  "(\<And>l. l \<in> set ls \<Longrightarrow> c \<notin> set l) \<Longrightarrow> splitOn c (concat (map (\<lambda>l. l @ [c]) ls)) = ls @ [[]]"
  by (induction ls) (simp_all add: splitOn_line)

lemma scanLines_Cons:
  assumes "NL \<notin> set l" and "length l < maxScanTokenSize"
  shows "scanLines (l @ NL # rest) = dropCR l # scanLines rest"
proof -
  from assms(1) have t: "takeWhile (\<lambda>c. c \<noteq> NL) (l @ NL # rest) = l"
    by (subst takeWhile_append2) auto
  from assms(1) have d: "dropWhile (\<lambda>c. c \<noteq> NL) (l @ NL # rest) = NL # rest"
    by (subst dropWhile_append2) auto
  from assms(2) t d show ?thesis by (subst scanLines.simps) simp
qed

lemma stringsContains_dropCR:
  assumes "stringsContains l ''OMIT''"
  shows "stringsContains (dropCR l) ''OMIT''"
proof -
  from assms obtain ps ss where l: "l = ps @ ''OMIT'' @ ss" by (auto simp: stringsContains_iff)
  show ?thesis
  proof (cases "ss = []")
    case True
    with l have "last l = CHR ''T''" by simp
    then have "dropCR l = l" by (simp add: dropCR_def)
    with assms show ?thesis by simp
  next
    case False
    with l have "butlast l = ps @ ''OMIT'' @ butlast ss" by (simp add: butlast_append)
    then have "stringsContains (butlast l) ''OMIT''" unfolding stringsContains_iff by blast
    with assms show ?thesis by (simp add: dropCR_def)
  qed
qed

lemma undent_lines:
  "splitOn NL (undent text) =
     map (\<lambda>line. drop (min (sharedIndent (retainedLines text)) (leadingTabs line)) line)
         (retainedLines text) @ [[]]"
proof -
  let ?f = "\<lambda>line. drop (min (sharedIndent (retainedLines text)) (leadingTabs line)) line"
  have "undent text = concat (map (\<lambda>l. l @ [NL]) (map ?f (retainedLines text)))"
    by (simp add: undent_eq comp_def)
  moreover have "\<And>l. l \<in> set (map ?f (retainedLines text)) \<Longrightarrow> NL \<notin> set l"
    by (auto simp: retainedLines_def dest!: in_set_dropD scanLines_no_NL)
  then have "splitOn NL (concat (map (\<lambda>l. l @ [NL]) (map ?f (retainedLines text))))
      = map ?f (retainedLines text) @ [[]]"
    by (rule splitOn_lines)
  ultimately show ?thesis by simp
qed

lemma undent_no_OMIT:
  assumes "line \<in> set (splitOn NL (undent text))"
  shows "\<not> stringsContains line ''OMIT''"
proof -
  from assms have "line = [] \<or> (\<exists>k l. l \<in> set (retainedLines text) \<and> line = drop k l)"
    unfolding undent_lines by auto
  then show ?thesis
  proof
    assume "line = []"
    then show ?thesis by (simp add: stringsContains_def)
  next
    assume "\<exists>k l. l \<in> set (retainedLines text) \<and> line = drop k l"
    then obtain k l where l: "l \<in> set (retainedLines text)" "line = drop k l" by blast
    then have "\<not> stringsContains l ''OMIT''" by (simp add: retainedLines_def)
    with l(2) show ?thesis using stringsContains_drop by blast
  qed
qed

lemma undent_first_OMIT:
  assumes "stringsContains l ''OMIT''" and "NL \<notin> set l" and "length l < maxScanTokenSize"
  shows "undent (l @ NL # rest) = undent rest"
  using assms by (simp add: undent_def scanLines_Cons stringsContains_dropCR)

section \<open>loadPage\<close>

lemma splitN_3:
  "splitN s ''---'' 3 =
     (case bytesIndex ''---'' s of
        None \<Rightarrow> [s]
      | Some m \<Rightarrow>
          (case bytesIndex ''---'' (drop (m + 3) s) of
             None \<Rightarrow> [take m s, drop (m + 3) s]
           | Some k \<Rightarrow> [take m s, take k (drop (m + 3) s), drop (k + 3) (drop (m + 3) s)]))"
proof (cases "bytesIndex ''---'' s")
  case None
  then show ?thesis by (cases "min 3 (length s + 1) - 1") (simp_all add: splitN_def)
next
  case (Some m)
  from bytesIndex_le [OF Some] have "3 \<le> length s" by simp
  then have "min 3 (length s + 1) - 1 = Suc (Suc 0)" by simp
  with Some show ?thesis by (simp add: splitN_def numeral_3_eq_3 split: option.splits)
qed

lemma frontSplit_Some:
  "frontSplit content = Some (header, body) \<Longrightarrow> content = ''---'' @ header @ ''---'' @ body"
proof -
  assume a: "frontSplit content = Some (header, body)"
  then have p: "prefix ''---'' content" by (simp add: frontSplit_def split: if_splits)
  with a obtain m where m: "bytesIndex ''---'' (drop 3 content) = Some m"
      "header = take m (drop 3 content)" "body = drop (m + 3) (drop 3 content)"
    by (auto simp: frontSplit_def split: option.splits)
  from bytesIndex_Some [OF m(1)] m have "drop 3 content = header @ ''---'' @ body" by simp
  moreover from p have "content = ''---'' @ drop 3 content"
    using prefix_append_drop [of "''---''" content] by (simp add: numeral_3_eq_3)
  ultimately show ?thesis by simp
qed

lemma frontSplit_None:
  "frontSplit content = None \<longleftrightarrow>
     \<not> prefix ''---'' content \<or> \<not> stringsContains (drop 3 content) ''---''"
  by (auto simp: frontSplit_def stringsContains_def split: option.splits)

text \<open>
  C2. \<^verbatim>\<open>loadPage\<close> separates front matter from body. When the content begins with the
  marker "---" and a second marker follows, the text between the first two markers is
  decoded as YAML into the front matter, everything after the second marker is the
  body, and a failure of the decoder is returned as the error; otherwise the front
  matter is empty and the body is the whole content, unchanged. The code splits with
  \<^verbatim>\<open>bytes.SplitN(content, "---", 3)\<close> and tests the number of pieces and the length of
  the first; \<^const>\<open>loadPageSpec\<close> is the sentence above.
\<close>

theorem loadPage_front_matter: "loadPage E content = loadPageSpec E content"
proof (cases "bytesIndex ''---'' content")
  case None
  then have "\<not> prefix ''---'' content" using bytesIndex_0_iff [of "''---''" content] by simp
  with None show ?thesis by (simp add: loadPage_def loadPageSpec_def frontSplit_def splitN_3)
next
  case (Some m)
  show ?thesis
  proof (cases m)
    case 0
    with Some have p: "prefix ''---'' content" by (simp add: bytesIndex_0_iff)
    with Some 0 show ?thesis
      by (simp add: loadPage_def loadPageSpec_def frontSplit_def splitN_3 add.commute
            split: option.splits sum.splits)
  next
    case (Suc k)
    with Some have "\<not> prefix ''---'' content" using bytesIndex_0_iff [of "''---''" content] by simp
    moreover from bytesIndex_le [OF Some] Suc have "0 < length (take m content)" by simp
    ultimately show ?thesis using Some
      by (simp add: loadPage_def loadPageSpec_def frontSplit_def splitN_3 split: option.splits)
  qed
qed

lemma loadPage_example:
  "loadPage exEnv ''---\<newline>title: Home\<newline>---\<newline>body''
     = Inr \<lparr>Front = \<lparr>Title = ''Home''\<rparr>, Content = ''\<newline>body''\<rparr>
   \<and> loadPage exEnv ''----'' = Inr \<lparr>Front = \<lparr>Title = []\<rparr>, Content = ''----''\<rparr>
   \<and> loadPage exEnv ''---x: 1---b'' = Inl (Err ''yaml: unmarshal errors'')"
  by (simp add: loadPage_def splitN_def exEnv_def exUnmarshal_def bytesTrim_def)

section \<open>undent: the claims\<close>

text \<open>
  A line the scanner cannot hold ends the loop of \<^verbatim>\<open>undent\<close>: the lines are the lines
  of the text as long as each is shorter than the scanner's buffer.
\<close>

lemma scanLines_all:
  "(\<And>l. l \<in> set ls \<Longrightarrow> NL \<notin> set l \<and> length l < maxScanTokenSize) \<Longrightarrow>
     scanLines (concat (map (\<lambda>l. l @ [NL]) ls)) = map dropCR ls"
proof (induction ls)
  case Nil
  show ?case by (subst scanLines.simps) simp
next
  case (Cons l ls)
  then show ?case by (simp add: scanLines_Cons)
qed

lemma scanLines_too_long:
  assumes "NL \<notin> set l" and "maxScanTokenSize \<le> length l"
  shows "scanLines (l @ rest) = []"
proof -
  from assms(1) have "takeWhile (\<lambda>c. c \<noteq> NL) (l @ rest) = l @ takeWhile (\<lambda>c. c \<noteq> NL) rest"
    by (subst takeWhile_append2) auto
  with assms(2) show ?thesis by (subst scanLines.simps) simp
qed

lemma undent_line_too_long:
  "NL \<notin> set l \<Longrightarrow> maxScanTokenSize \<le> length l \<Longrightarrow> undent (l @ rest) = []"
  by (simp add: undent_def scanLines_too_long)

text \<open>
  Shared-indentation stripping, on the lines the scanner yields. The shared indentation
  is the number of leading tabs of the first retained line (the first scanned line
  without "OMIT"); the output is, for each retained line in order, the line without its
  first \<open>min\<close> (shared indentation) (its own leading tabs) bytes, followed by a newline;
  and the bytes removed from a line are tabs: at most the shared number, and only tabs
  that lead that line.
\<close>

lemma undent_scanned_lines:
  "undent text =
     concat (map (\<lambda>line. drop (min (sharedIndent (retainedLines text)) (leadingTabs line)) line @ [NL])
                 (retainedLines text))
   \<and> take (min n (leadingTabs line)) line = replicate (min n (leadingTabs line)) TAB
   \<and> min n (leadingTabs line) \<le> n"
proof -
  have "take (min n (leadingTabs line)) line = replicate (min n (leadingTabs line)) TAB"
    by (rule leading_are_tabs) simp
  then show ?thesis using undent_eq [of "text"] by simp
qed

text \<open>
  For a text given by its lines, each shorter than the scanner's buffer, that is every
  line of the text.
\<close>

lemma undent_all_lines:
  assumes "\<And>l. l \<in> set ls \<Longrightarrow> NL \<notin> set l \<and> length l < maxScanTokenSize"
  shows "undent (concat (map (\<lambda>l. l @ [NL]) ls)) =
     concat (map (\<lambda>line. drop (min (sharedIndent (filter (\<lambda>line. \<not> stringsContains line ''OMIT'')
                                                         (map dropCR ls)))
                                     (leadingTabs line)) line @ [NL])
                 (filter (\<lambda>line. \<not> stringsContains line ''OMIT'') (map dropCR ls)))"
  using scanLines_all [OF assms] by (simp add: undent_eq retainedLines_def)

text \<open>
  C3. "For every included snippet, \<^verbatim>\<open>undent\<close> removes from every line the number of
  leading tabs found on the first retained line, at most that many and only tabs that
  lead the line." The comment on \<^verbatim>\<open>undent\<close> says the same: "from all lines". The code
  does so only up to the first line of 64 * 1024 bytes or more: there \<^verbatim>\<open>scanner.Scan\<close>
  returns false, \<^verbatim>\<open>scanner.Err\<close> is never read, and that line and every line after it
  are missing from the output. For the three lines tab \<open>x\<close>, 65536 times \<open>a\<close>, tab
  \<open>y\<close>, the output is the line \<open>x\<close> alone; stripping one tab from each of the three
  lines gives \<open>x\<close>, the long line and \<open>y\<close>.
\<close>

theorem undent_long_line_drops_lines:
  "undent (TAB # ''x'' @ NL # replicate 65536 (CHR ''a'') @ NL # TAB # ''y'' @ [NL]) = ''x'' @ [NL]
   \<and> concat (map (\<lambda>line. drop (min 1 (leadingTabs line)) line @ [NL])
                 [TAB # ''x'', replicate 65536 (CHR ''a''), TAB # ''y''])
       = ''x'' @ NL # replicate 65536 (CHR ''a'') @ NL # ''y'' @ [NL]"
proof -
  have a: "NL \<notin> set (TAB # ''x'')" "length (TAB # ''x'') < maxScanTokenSize"
    by (simp_all add: maxScanTokenSize_def)
  have b: "NL \<notin> set (replicate 65536 (CHR ''a''))"
      "maxScanTokenSize \<le> length (replicate 65536 (CHR ''a''))"
    by (simp_all add: maxScanTokenSize_def)
  have "scanLines ((TAB # ''x'') @ NL # replicate 65536 (CHR ''a'') @ NL # TAB # ''y'' @ [NL])
      = dropCR (TAB # ''x'') # scanLines (replicate 65536 (CHR ''a'') @ NL # TAB # ''y'' @ [NL])"
    by (rule scanLines_Cons [OF a])
  also have "scanLines (replicate 65536 (CHR ''a'') @ NL # TAB # ''y'' @ [NL]) = []"
    by (rule scanLines_too_long [OF b])
  finally have "undent (TAB # ''x'' @ NL # replicate 65536 (CHR ''a'') @ NL # TAB # ''y'' @ [NL])
      = ''x'' @ [NL]"
    by (simp add: undent_def dropCR_def stringsContains_def countTabs.simps stripTabs.simps)
  moreover have "leadingTabs (replicate 65536 (CHR ''a'')) = 0"
    by (simp add: leadingTabs_def takeWhile_replicate)
  ultimately show ?thesis by (simp add: leadingTabs_def)
qed

lemma undent_example:
  "undent ([TAB, TAB] @ ''a'' @ [NL, TAB] @ ''b'' @ [NL, TAB, TAB, TAB] @ ''c'' @ [NL] @ ''d'' @ [NL])
     = ''a'' @ [NL] @ ''b'' @ [NL, TAB] @ ''c'' @ [NL] @ ''d'' @ [NL]"
  by (simp add: undent_def scanLines.simps maxScanTokenSize_def dropCR_def stringsContains_def
        countTabs.simps stripTabs.simps)

text \<open>
  C9. No line of the output of \<^verbatim>\<open>undent\<close> contains "OMIT". The lines of the output
  (the output split at its newlines; the last piece, after the final newline, is empty)
  are the stripped retained lines, one for one, so a line with "OMIT" leaves nothing
  behind, not even an empty line. A first line with "OMIT" does not take part in
  finding the number of tabs: the result is that of the text without that line (the line
  being one the scanner can hold).
\<close>

theorem undent_drops_OMIT:
  "(\<forall>line \<in> set (splitOn NL (undent text)). \<not> stringsContains line ''OMIT'')
   \<and> splitOn NL (undent text) =
       map (\<lambda>line. drop (min (sharedIndent (retainedLines text)) (leadingTabs line)) line)
           (retainedLines text) @ [[]]
   \<and> (stringsContains l ''OMIT'' \<and> NL \<notin> set l \<and> length l < maxScanTokenSize
        \<longrightarrow> undent (l @ NL # rest) = undent rest)"
  using undent_no_OMIT [of _ "text"] undent_lines [of "text"] undent_first_OMIT [of l rest]
  by blast

theorem undent_drops_OMIT_witness:
  "stringsContains (TAB # ''// OMIT'') ''OMIT''
   \<and> NL \<notin> set (TAB # ''// OMIT'')
   \<and> length (TAB # ''// OMIT'') < maxScanTokenSize
   \<and> undent ((TAB # ''// OMIT'') @ NL # ''x'' @ [NL, TAB] @ ''y'' @ [NL])
       = undent (''x'' @ [NL, TAB] @ ''y'' @ [NL])
   \<and> undent (''x'' @ [NL, TAB] @ ''y'' @ [NL]) = ''x'' @ [NL, TAB] @ ''y'' @ [NL]
   \<and> splitOn NL (undent ((TAB # ''// OMIT'') @ NL # ''x'' @ [NL, TAB] @ ''y'' @ [NL]))
       = [''x'', TAB # ''y'', []]"
proof -
  have h: "stringsContains (TAB # ''// OMIT'') ''OMIT''
      \<and> NL \<notin> set (TAB # ''// OMIT'') \<and> length (TAB # ''// OMIT'') < maxScanTokenSize"
    by (simp add: stringsContains_def maxScanTokenSize_def)
  have e: "undent (''x'' @ [NL, TAB] @ ''y'' @ [NL]) = ''x'' @ [NL, TAB] @ ''y'' @ [NL]"
    by (simp add: undent_def scanLines.simps maxScanTokenSize_def dropCR_def stringsContains_def
          countTabs.simps stripTabs.simps)
  from h undent_drops_OMIT [of "(TAB # ''// OMIT'') @ NL # ''x'' @ [NL, TAB] @ ''y'' @ [NL]"
      "TAB # ''// OMIT''" "''x'' @ [NL, TAB] @ ''y'' @ [NL]"]
  have "undent ((TAB # ''// OMIT'') @ NL # ''x'' @ [NL, TAB] @ ''y'' @ [NL])
      = undent (''x'' @ [NL, TAB] @ ''y'' @ [NL])"
    by blast
  with h e show ?thesis by simp
qed

section \<open>includeExample: the claims\<close>

lemma bytesIndex_char: "c \<notin> set pre \<Longrightarrow> bytesIndex [c] (pre @ c # post) = Some (length pre)"
  by (induction pre) auto

lemma bytesIndex_char_None: "c \<notin> set s \<Longrightarrow> bytesIndex [c] s = None"
  by (induction s) auto

lemma splitN_comma:
  "addr \<noteq> [] \<Longrightarrow>
     splitN addr '','' 2 =
       (case bytesIndex '','' addr of
          None \<Rightarrow> [addr]
        | Some m \<Rightarrow> [take m addr, drop (m + 1) addr])"
proof -
  assume "addr \<noteq> []"
  then have "min 2 (length addr + 1) - 1 = Suc 0" by (cases addr) auto
  then show ?thesis by (simp add: splitN_def split: option.splits)
qed

lemma splitN_no_comma:
  "addr \<noteq> [] \<Longrightarrow> CHR '','' \<notin> set addr \<Longrightarrow> splitN addr '','' 2 = [addr]"
  by (simp add: splitN_comma bytesIndex_char_None)

lemma splitN_at_comma:
  "CHR '','' \<notin> set start \<Longrightarrow> splitN (start @ CHR '','' # end) '','' 2 = [start, end]"
  by (simp add: splitN_comma bytesIndex_char)

lemma addr_parts:
  "CHR '','' \<in> set addr \<Longrightarrow> addr = addrStart addr @ CHR '','' # addrEnd addr"
proof -
  assume a: "CHR '','' \<in> set addr"
  then have "dropWhile (\<lambda>c. c \<noteq> CHR '','') addr \<noteq> []" by (simp add: dropWhile_eq_Nil_conv)
  then obtain x xs where d: "dropWhile (\<lambda>c. c \<noteq> CHR '','') addr = x # xs"
    by (cases "dropWhile (\<lambda>c. c \<noteq> CHR '','') addr") auto
  then have "x = CHR '',''" using hd_dropWhile [of "\<lambda>c. c \<noteq> CHR '',''" addr] by auto
  with d have "addr = takeWhile (\<lambda>c. c \<noteq> CHR '','') addr @ CHR '','' # xs"
    using takeWhile_dropWhile_id [of "\<lambda>c. c \<noteq> CHR '',''" addr] by simp
  with d show ?thesis by (simp add: addrStart_def addrEnd_def)
qed

lemma splitN_addr:
  assumes "CHR '','' \<in> set addr"
  shows "splitN addr '','' 2 = [addrStart addr, addrEnd addr]"
proof -
  have "CHR '','' \<notin> set (addrStart addr)"
    by (auto simp: addrStart_def dest: set_takeWhileD)
  from splitN_at_comma [OF this, of "addrEnd addr"] addr_parts [OF assms]
  show ?thesis by simp
qed

lemma regexFor_delimited:
  "regexFor E r =
     (if delimited r then
        (case regexpCompile E (enclosed r) of Inl m \<Rightarrow> Inl (Err m) | Inr re \<Rightarrow> Inr re)
      else Inl (Err ''missing / separators''))"
proof (cases "length r < 2")
  case True
  then show ?thesis by (simp add: regexFor_def delimited_def)
next
  case False
  then have ne: "r \<noteq> []" by auto
  then have "hd r = r ! 0" and "last r = r ! (length r - 1)"
    by (simp_all add: hd_conv_nth last_conv_nth)
  moreover have "take (length r - 2) (drop 1 r) = enclosed r"
    by (simp add: enclosed_def butlast_conv_take drop_Suc numeral_2_eq_2)
  ultimately show ?thesis using False by (simp add: regexFor_def delimited_def)
qed

lemma regexFor_slashes:
  "regexFor E (CHR ''/'' # s @ ''/'') =
     (case regexpCompile E s of Inl m \<Rightarrow> Inl (Err m) | Inr re \<Rightarrow> Inr re)"
  by (simp add: regexFor_delimited delimited_def enclosed_def butlast_append)

lemma selectRange_eq:
  "selectRange E startR endR file = regexRange (findIndex E startR) (findIndex E endR) file"
  by (auto simp: selectRange_def regexRange_def Let_def split: option.splits)

text \<open>
  C1, as the code has it. The address is split at its first comma, so a start
  expression with a comma in it is not read as one: for a readable file and an address
  \<^verbatim>\<open>/s/,/e/\<close> where \<open>s\<close> has no comma and both expressions compile, the content
  spliced in is the range of the file from the start of the first match of \<open>s\<close> to the
  end of the first match of \<open>e\<close> in what follows that start (from the start, or to the
  end, of the file when the expression has no match), then trimmed of newlines and
  undented.
\<close>

theorem includeExample_range:
  assumes "readFile E (filepathJoin includeRoot path) = Inr bytes"
    and "CHR '','' \<notin> set s"
    and "regexpCompile E s = Inr startR" and "regexpCompile E e = Inr endR"
  shows "includeExample E path (''/'' @ s @ ''/,/'' @ e @ ''/'')
           = Inr (trimUndent (regexRange (findIndex E startR) (findIndex E endR) bytes))"
proof -
  have "''/'' @ s @ ''/,/'' @ e @ ''/'' = (CHR ''/'' # s @ ''/'') @ CHR '','' # (CHR ''/'' # e @ ''/'')"
    by simp
  moreover from assms(2) have "CHR '','' \<notin> set (CHR ''/'' # s @ ''/'')" by simp
  ultimately have "splitN (''/'' @ s @ ''/,/'' @ e @ ''/'') '','' 2
      = [CHR ''/'' # s @ ''/'', CHR ''/'' # e @ ''/'']"
    using splitN_at_comma by metis
  with assms(1,3,4) show ?thesis
    by (simp add: includeExample_def regexFor_slashes selectRange_eq del: append.simps)
qed

lemma exMainGo_readable: "readFile exEnv (filepathJoin includeRoot ''main.go'') = Inr exMainGo"
  by (simp add: exEnv_def exReadFile_def exFiles_def filepathJoin_def includeRoot_def
        filepathClean_def)

lemma exCompile_plain:
  "regexpCompile exEnv ''func'' = Inr ''func'' \<and> regexpCompile exEnv ''a, b'' = Inr ''a, b''
   \<and> regexpCompile exEnv ''return'' = Inr ''return''"
  by (simp add: exEnv_def exCompile_def)

theorem includeExample_range_witness:
  "readFile exEnv (filepathJoin includeRoot ''main.go'') = Inr exMainGo
   \<and> CHR '','' \<notin> set ''func''
   \<and> regexpCompile exEnv ''func'' = Inr ''func''
   \<and> regexpCompile exEnv ''return'' = Inr ''return''
   \<and> includeExample exEnv ''main.go'' ''/func/,/return/''
       = Inr (''func f(a, b int) {'' @ [NL, TAB, TAB] @ ''return'' @ [NL])"
proof -
  have c: "CHR '','' \<notin> set ''func''" by simp
  have r: "trimUndent (regexRange (findIndex exEnv ''func'') (findIndex exEnv ''return'') exMainGo)
      = ''func f(a, b int) {'' @ [NL, TAB, TAB] @ ''return'' @ [NL]"
    by (simp add: trimUndent_def regexRange_def exEnv_def exFindIndex_def exMainGo_def
          bytesTrim_def undent_def scanLines.simps maxScanTokenSize_def dropCR_def
          stringsContains_def countTabs.simps stripTabs.simps)
  from includeExample_range [OF exMainGo_readable c, of "''func''" "''return''" "''return''"]
    exCompile_plain r
  have "includeExample exEnv ''main.go'' ''/func/,/return/''
      = Inr (''func f(a, b int) {'' @ [NL, TAB, TAB] @ ''return'' @ [NL])"
    by simp
  with exMainGo_readable c exCompile_plain show ?thesis by simp
qed

text \<open>
  C1 as stated fails when the start expression has a comma: \<open>a, b\<close> and \<open>return\<close>
  both compile and both match in the file, and the address \<^verbatim>\<open>/a, b/,/return/\<close> is
  split into \<^verbatim>\<open>/a\<close> and \<^verbatim>\<open> b/,/return/\<close>; the result is the error "missing /
  separators" and no content.
\<close>

theorem includeExample_comma_counterexample:
  "readFile exEnv (filepathJoin includeRoot ''main.go'') = Inr exMainGo
   \<and> regexpCompile exEnv ''a, b'' = Inr ''a, b''
   \<and> regexpCompile exEnv ''return'' = Inr ''return''
   \<and> trimUndent (regexRange (findIndex exEnv ''a, b'') (findIndex exEnv ''return'') exMainGo)
       = ''a, b int) {'' @ [NL, TAB, TAB] @ ''return'' @ [NL]
   \<and> includeExample exEnv ''main.go'' (''/'' @ ''a, b'' @ ''/,/'' @ ''return'' @ ''/'')
       = Inl (Err ''/a: missing / separators'')"
proof -
  have "trimUndent (regexRange (findIndex exEnv ''a, b'') (findIndex exEnv ''return'') exMainGo)
      = ''a, b int) {'' @ [NL, TAB, TAB] @ ''return'' @ [NL]"
    by (simp add: trimUndent_def regexRange_def exEnv_def exFindIndex_def exMainGo_def
          bytesTrim_def undent_def scanLines.simps maxScanTokenSize_def dropCR_def
          stringsContains_def countTabs.simps stripTabs.simps)
  moreover have "includeExample exEnv ''main.go'' (''/'' @ ''a, b'' @ ''/,/'' @ ''return'' @ ''/'')
      = Inl (Err ''/a: missing / separators'')"
    by (simp add: includeExample_def exEnv_def exReadFile_def exFiles_def filepathJoin_def
          includeRoot_def filepathClean_def splitN_def regexFor_def)
  ultimately show ?thesis using exMainGo_readable exCompile_plain by simp
qed

text \<open>
  C6. For a non-empty address with no comma, or whose start or end delimiter (the text
  before and after the first comma) is not of the form \<^verbatim>\<open>/regex/\<close> (at least two bytes,
  the first and the last a slash), or whose enclosed expression does not compile,
  \<^verbatim>\<open>includeExample\<close> returns an error and no content.
\<close>

theorem includeExample_invalid_address:
  assumes "addr \<noteq> []"
    and "CHR '','' \<notin> set addr
         \<or> \<not> delimited (addrStart addr) \<or> \<not> delimited (addrEnd addr)
         \<or> isl (regexpCompile E (enclosed (addrStart addr)))
         \<or> isl (regexpCompile E (enclosed (addrEnd addr)))"
  shows "\<exists>m. includeExample E path addr = Inl (Err m)"
proof (cases "readFile E (filepathJoin includeRoot path)")
  case (Inl m)
  then show ?thesis by (simp add: includeExample_def)
next
  case (Inr bytes)
  show ?thesis
  proof (cases "CHR '','' \<in> set addr")
    case False
    with assms(1) Inr show ?thesis by (simp add: includeExample_def splitN_no_comma)
  next
    case True
    with assms(2) have bad: "\<not> delimited (addrStart addr) \<or> \<not> delimited (addrEnd addr)
         \<or> isl (regexpCompile E (enclosed (addrStart addr)))
         \<or> isl (regexpCompile E (enclosed (addrEnd addr)))" by simp
    then have "isl (regexFor E (addrStart addr)) \<or> isl (regexFor E (addrEnd addr))"
      by (auto simp: regexFor_delimited split: sum.splits)
    with assms(1) Inr True show ?thesis
      by (cases "regexFor E (addrStart addr)"; cases "regexFor E (addrEnd addr)")
         (simp_all add: includeExample_def splitN_addr Let_def)
  qed
qed

theorem includeExample_invalid_address_witness:
  "''/func/'' \<noteq> [] \<and> CHR '','' \<notin> set ''/func/''
   \<and> (\<exists>m. includeExample exEnv ''main.go'' ''/func/'' = Inl (Err m))
   \<and> includeExample exEnv ''main.go'' ''/func/'' = Inl (Err ''invalid address: /func/'')
   \<and> \<not> delimited (addrStart ''func,/return/'')
   \<and> (\<exists>m. includeExample exEnv ''main.go'' ''func,/return/'' = Inl (Err m))
   \<and> isl (regexpCompile exEnv (enclosed (addrEnd ''/func/,/(/'')))
   \<and> (\<exists>m. includeExample exEnv ''main.go'' ''/func/,/(/'' = Inl (Err m))
   \<and> includeExample exEnv ''main.go'' ''/func/,/(/'' = Inl (Err ''/(/: error parsing regexp'')"
proof -
  have a: "''/func/'' \<noteq> [] \<and> CHR '','' \<notin> set ''/func/''" by simp
  have b: "\<not> delimited (addrStart ''func,/return/'')"
    by (simp add: delimited_def addrStart_def)
  have c: "isl (regexpCompile exEnv (enclosed (addrEnd ''/func/,/(/'')))"
    by (simp add: enclosed_def addrEnd_def exEnv_def exCompile_def)
  have e1: "includeExample exEnv ''main.go'' ''/func/'' = Inl (Err ''invalid address: /func/'')"
    by (simp add: includeExample_def exEnv_def exReadFile_def exFiles_def filepathJoin_def
          includeRoot_def filepathClean_def splitN_def)
  have e2: "includeExample exEnv ''main.go'' ''/func/,/(/'' = Inl (Err ''/(/: error parsing regexp'')"
    by (simp add: includeExample_def exEnv_def exReadFile_def exFiles_def filepathJoin_def
          includeRoot_def filepathClean_def splitN_def regexFor_def exCompile_def)
  from a includeExample_invalid_address [of "''/func/''" exEnv "''main.go''"]
  have "\<exists>m. includeExample exEnv ''main.go'' ''/func/'' = Inl (Err m)" by blast
  moreover from b includeExample_invalid_address [of "''func,/return/''" exEnv "''main.go''"]
  have "\<exists>m. includeExample exEnv ''main.go'' ''func,/return/'' = Inl (Err m)" by blast
  moreover from c includeExample_invalid_address [of "''/func/,/(/''" exEnv "''main.go''"]
  have "\<exists>m. includeExample exEnv ''main.go'' ''/func/,/(/'' = Inl (Err m)" by blast
  ultimately show ?thesis using a b c e1 e2 by blast
qed

section \<open>loadMarkdown, loadDocs, servePage and pageHandler: the claims\<close>

lemmas ex_defs = exEnv_def exReadFile_def exFiles_def exMainGo_def exCompile_def exFindIndex_def
  exUnmarshal_def exToHTML_def exTemplate_def

lemmas run_defs = includeExample_def loadMarkdown_def loadPage_def readIncludeFn_def regexFor_def
  selectRange_def trimUndent_def undent_def scanLines.simps maxScanTokenSize_def dropCR_def
  stringsContains_def countTabs.simps stripTabs.simps bytesTrim_def splitN_def filepathJoin_def
  filepathClean_def contentRoot_def includeRoot_def defaultTitle_def

lemma ex_loadMarkdown_index: "loadMarkdown exEnv ''/index'' = Inr exIndexHtml"
  by (simp add: ex_defs run_defs exIndexHtml_def)

lemma ex_loadMarkdown_doc: "loadMarkdown exEnv ''/doc/index'' = Inr exDocHtml"
  by (simp add: ex_defs run_defs exDocHtml_def)

lemma ex_loadMarkdown_missing:
  "loadMarkdown exEnv ''/missing'' = Inl (Err ''open content/missing.md: no such file or directory'')"
  by (simp add: ex_defs run_defs)

text \<open>
  \<^verbatim>\<open>loadMarkdown\<close> and what it calls read neither \<^verbatim>\<open>GAE_APPLICATION\<close> nor \<^verbatim>\<open>pages\<close>.
\<close>

lemma regexFor_state [simp]:
  "regexFor (E\<lparr>gaeApplication := g\<rparr>) r = regexFor E r"
  "regexFor (E\<lparr>pages := ps\<rparr>) r = regexFor E r"
  by (simp_all add: regexFor_def)

lemma selectRange_state [simp]:
  "selectRange (E\<lparr>gaeApplication := g\<rparr>) a b c = selectRange E a b c"
  "selectRange (E\<lparr>pages := ps\<rparr>) a b c = selectRange E a b c"
  by (simp_all add: selectRange_def)

lemma includeExample_state [simp]:
  "includeExample (E\<lparr>gaeApplication := g\<rparr>) p a = includeExample E p a"
  "includeExample (E\<lparr>pages := ps\<rparr>) p a = includeExample E p a"
  by (simp_all add: includeExample_def Let_def cong: sum.case_cong if_cong)

lemma readIncludeFn_state [simp]:
  "readIncludeFn (E\<lparr>gaeApplication := g\<rparr>) = readIncludeFn E"
  "readIncludeFn (E\<lparr>pages := ps\<rparr>) = readIncludeFn E"
  by (simp_all add: readIncludeFn_def fun_eq_iff)

lemma loadPage_state [simp]:
  "loadPage (E\<lparr>gaeApplication := g\<rparr>) c = loadPage E c"
  "loadPage (E\<lparr>pages := ps\<rparr>) c = loadPage E c"
  by (simp_all add: loadPage_def Let_def cong: sum.case_cong if_cong)

lemma loadMarkdown_state [simp]:
  "loadMarkdown (E\<lparr>gaeApplication := g\<rparr>) url = loadMarkdown E url"
  "loadMarkdown (E\<lparr>pages := ps\<rparr>) url = loadMarkdown E url"
  by (simp_all add: loadMarkdown_def Let_def cong: sum.case_cong if_cong)

lemma filepathExt_md: "filepathExt (p @ ''.md'') = ''.md''"
  by (simp add: filepathExt_def)

lemma loadDocsVisit_md:
  "loadDocsVisit E root ps0 (root @ name @ ''.md'', False, None) =
     (case loadMarkdown E name of Inl e \<Rightarrow> Inl e | Inr c \<Rightarrow> Inr (ps0(name \<mapsto> c)))"
  using filepathExt_md [of "root @ name"] by (simp add: loadDocsVisit_def)

lemma loadDocsVisit_result:
  "loadDocsVisit E root ps0 v = Inr ps1 \<Longrightarrow>
     ps1 = ps0 \<or> (\<exists>n c. loadMarkdown E n = Inr c \<and> ps1 = ps0(n \<mapsto> c))"
  by (auto simp: loadDocsVisit_def Let_def split: prod.splits option.splits if_splits sum.splits)

lemma walkVisits_keeps:
  "walkVisits E root ps0 vs = Inr ps \<Longrightarrow> ps0 k = Some c \<Longrightarrow> loadMarkdown E k = Inr c \<Longrightarrow>
     ps k = Some c"
proof (induction vs arbitrary: ps0)
  case Nil
  then show ?case by simp
next
  case (Cons v vs)
  from Cons.prems(1) obtain ps1 where v: "loadDocsVisit E root ps0 v = Inr ps1"
      and w: "walkVisits E root ps1 vs = Inr ps"
    by (auto split: sum.splits)
  from loadDocsVisit_result [OF v] Cons.prems(2,3) have "ps1 k = Some c" by auto
  from Cons.IH [OF w this Cons.prems(3)] show ?case .
qed

lemma walkVisits_member:
  "walkVisits E root ps0 vs = Inr ps \<Longrightarrow> (root @ name @ ''.md'', False, None) \<in> set vs \<Longrightarrow>
     \<exists>c. ps name = Some c \<and> loadMarkdown E name = Inr c"
proof (induction vs arbitrary: ps0)
  case Nil
  then show ?case by simp
next
  case (Cons v vs)
  from Cons.prems(1) obtain ps1 where v: "loadDocsVisit E root ps0 v = Inr ps1"
      and w: "walkVisits E root ps1 vs = Inr ps"
    by (auto split: sum.splits)
  show ?case
  proof (cases "v = (root @ name @ ''.md'', False, None)")
    case True
    with v obtain c where c: "loadMarkdown E name = Inr c" "ps1 = ps0(name \<mapsto> c)"
      by (auto simp: loadDocsVisit_md split: sum.splits)
    then have "ps1 name = Some c" by simp
    from walkVisits_keeps [OF w this c(1)] c(1) show ?thesis by blast
  next
    case False
    with Cons.prems(2) have "(root @ name @ ''.md'', False, None) \<in> set vs" by simp
    from Cons.IH [OF w this] show ?thesis .
  qed
qed

lemma ex_loadDocs:
  "loadDocs exEnv contentRoot exVisits
     = Inr [''/doc/index'' \<mapsto> exDocHtml, ''/index'' \<mapsto> exIndexHtml]"
proof -
  have v: "\<And>ps. loadDocsVisit exEnv contentRoot ps (''content'', True, None) = Inr ps"
     "\<And>ps. loadDocsVisit exEnv contentRoot ps (''content/doc'', True, None) = Inr ps"
     "\<And>ps. loadDocsVisit exEnv contentRoot ps (''content/logo.png'', False, None) = Inr ps"
    by (simp_all add: loadDocsVisit_def filepathExt_def)
  have d: "\<And>ps. loadDocsVisit exEnv contentRoot ps (''content/doc/index.md'', False, None)
       = Inr (ps(''/doc/index'' \<mapsto> exDocHtml))"
    using loadDocsVisit_md [of exEnv contentRoot _ "''/doc/index''"]
    by (simp add: contentRoot_def ex_loadMarkdown_doc)
  have i: "\<And>ps. loadDocsVisit exEnv contentRoot ps (''content/index.md'', False, None)
       = Inr (ps(''/index'' \<mapsto> exIndexHtml))"
    using loadDocsVisit_md [of exEnv contentRoot _ "''/index''"]
    by (simp add: contentRoot_def ex_loadMarkdown_index)
  have "pages exEnv = Map.empty" by (simp add: exEnv_def)
  then show ?thesis by (simp add: loadDocs_def exVisits_def v d i)
qed

text \<open>
  C7. When \<^verbatim>\<open>loadDocs\<close> has walked the content directory without an error, the entry
  of \<^verbatim>\<open>pages\<close> under the key \<open>name\<close> of a visited Markdown file \<open>root/name.md\<close> (the
  path without the root and without ".md") is what \<^verbatim>\<open>loadMarkdown\<close> returns for
  \<open>name\<close>; so, the files unchanged, \<^verbatim>\<open>servePage\<close> hands the same bytes to the same
  writer for that path in GAE mode (from the map) and on demand.
\<close>

theorem loadDocs_cache_agrees:
  assumes "loadDocs E root visits = Inr ps"
    and "(root @ name @ ''.md'', False, None) \<in> set visits"
    and "g \<noteq> []"
  shows "\<exists>c. ps name = Some c \<and> loadMarkdown E name = Inr c
     \<and> servePage (E\<lparr>gaeApplication := g, pages := ps\<rparr>) name
         = servePage (E\<lparr>gaeApplication := []\<rparr>) name
     \<and> servePage (E\<lparr>gaeApplication := []\<rparr>) name = writePage E c"
proof -
  from assms(1,2) obtain c where c: "ps name = Some c" "loadMarkdown E name = Inr c"
    using walkVisits_member [of E root "pages E" visits ps name] by (auto simp: loadDocs_def)
  with assms(3) have "servePage (E\<lparr>gaeApplication := g, pages := ps\<rparr>) name = writePage E c"
    by (simp add: servePage_def writePage_def)
  moreover from c have "servePage (E\<lparr>gaeApplication := []\<rparr>) name = writePage E c"
    by (simp add: servePage_def writePage_def)
  ultimately show ?thesis using c by simp
qed

theorem loadDocs_cache_agrees_witness:
  "loadDocs exEnv contentRoot exVisits
     = Inr [''/doc/index'' \<mapsto> exDocHtml, ''/index'' \<mapsto> exIndexHtml]
   \<and> (contentRoot @ ''/index'' @ ''.md'', False, None) \<in> set exVisits
   \<and> ''app'' \<noteq> []
   \<and> loadMarkdown exEnv ''/index'' = Inr exIndexHtml
   \<and> servePage (exEnv\<lparr>gaeApplication := ''app'',
                          pages := [''/doc/index'' \<mapsto> exDocHtml, ''/index'' \<mapsto> exIndexHtml]\<rparr>)
         ''/index''
       = servePage (exEnv\<lparr>gaeApplication := []\<rparr>) ''/index''
   \<and> servePage (exEnv\<lparr>gaeApplication := []\<rparr>) ''/index'' = Inr exIndexHtml"
proof -
  have m: "(contentRoot @ ''/index'' @ ''.md'', False, None) \<in> set exVisits"
    by (simp add: exVisits_def contentRoot_def)
  have g: "''app'' \<noteq> []" by simp
  have w: "writePage exEnv exIndexHtml = Inr exIndexHtml"
    by (simp add: writePage_def exEnv_def)
  from loadDocs_cache_agrees [OF ex_loadDocs m g] ex_loadMarkdown_index w
  have "servePage (exEnv\<lparr>gaeApplication := ''app'',
                          pages := [''/doc/index'' \<mapsto> exDocHtml, ''/index'' \<mapsto> exIndexHtml]\<rparr>)
         ''/index''
       = servePage (exEnv\<lparr>gaeApplication := []\<rparr>) ''/index''
     \<and> servePage (exEnv\<lparr>gaeApplication := []\<rparr>) ''/index'' = Inr exIndexHtml"
    by auto
  with ex_loadDocs m g ex_loadMarkdown_index show ?thesis by simp
qed

text \<open>
  C8. When the front matter of a page has an empty title (or none: the decoder then
  leaves the field empty), \<^verbatim>\<open>loadMarkdown\<close> executes the template with the title
  "Gio - immediate mode GUI in Go"; a title that is not empty goes to the template as
  it is.
\<close>

theorem loadMarkdown_default_title:
  assumes "readFile E (filepathJoin contentRoot (url @ ''.md'')) = Inr content"
    and "loadPage E content = Inr pg"
  shows "loadMarkdown E url =
           (case executeTemplate E
                   (if Title (Front pg) = [] then (Front pg)\<lparr>Title := defaultTitle\<rparr>
                    else Front pg)
                   (markdownToHTML E (readIncludeFn E) (Content pg)) of
              Inl m \<Rightarrow> Inl (Err m)
            | Inr out \<Rightarrow> Inr out)
         \<and> defaultTitle = ''Gio - immediate mode GUI in Go''"
  using assms by (simp add: loadMarkdown_def Let_def defaultTitle_def)

theorem loadMarkdown_default_title_witness:
  "readFile exEnv (filepathJoin contentRoot (''/doc/index'' @ ''.md'')) = Inr ''{{missing.go}}''
   \<and> loadPage exEnv ''{{missing.go}}'' = Inr \<lparr>Front = \<lparr>Title = []\<rparr>, Content = ''{{missing.go}}''\<rparr>
   \<and> loadMarkdown exEnv ''/doc/index''
       = Inr (''<title>Gio - immediate mode GUI in Go</title>''
              @ markdownToHTML exEnv (readIncludeFn exEnv) ''{{missing.go}}'')
   \<and> readFile exEnv (filepathJoin contentRoot (''/index'' @ ''.md''))
       = Inr ''---\<newline>title: Home\<newline>---\<newline>{{main.go}}[/func/,/return/]''
   \<and> loadPage exEnv ''---\<newline>title: Home\<newline>---\<newline>{{main.go}}[/func/,/return/]''
       = Inr \<lparr>Front = \<lparr>Title = ''Home''\<rparr>, Content = ''\<newline>{{main.go}}[/func/,/return/]''\<rparr>
   \<and> loadMarkdown exEnv ''/index''
       = Inr (''<title>Home</title>''
              @ markdownToHTML exEnv (readIncludeFn exEnv) ''\<newline>{{main.go}}[/func/,/return/]'')"
proof -
  have r: "readFile exEnv (filepathJoin contentRoot (''/doc/index'' @ ''.md'')) = Inr ''{{missing.go}}''"
    by (simp add: ex_defs filepathJoin_def filepathClean_def contentRoot_def)
  have l: "loadPage exEnv ''{{missing.go}}''
      = Inr \<lparr>Front = \<lparr>Title = []\<rparr>, Content = ''{{missing.go}}''\<rparr>"
    by (simp add: loadPage_def splitN_def)
  have r2: "readFile exEnv (filepathJoin contentRoot (''/index'' @ ''.md''))
       = Inr ''---\<newline>title: Home\<newline>---\<newline>{{main.go}}[/func/,/return/]''"
    by (simp add: ex_defs filepathJoin_def filepathClean_def contentRoot_def)
  have l2: "loadPage exEnv ''---\<newline>title: Home\<newline>---\<newline>{{main.go}}[/func/,/return/]''
       = Inr \<lparr>Front = \<lparr>Title = ''Home''\<rparr>, Content = ''\<newline>{{main.go}}[/func/,/return/]''\<rparr>"
    by (simp add: loadPage_def splitN_def exEnv_def exUnmarshal_def bytesTrim_def)
  have t: "\<And>f h. executeTemplate exEnv f h = Inr (''<title>'' @ Title f @ ''</title>'' @ h)"
    by (simp add: exEnv_def exTemplate_def)
  from loadMarkdown_default_title [OF r l]
  have "loadMarkdown exEnv ''/doc/index''
       = Inr (''<title>Gio - immediate mode GUI in Go</title>''
              @ markdownToHTML exEnv (readIncludeFn exEnv) ''{{missing.go}}'')"
    by (simp add: t)
  moreover from loadMarkdown_default_title [OF r2 l2]
  have "loadMarkdown exEnv ''/index''
       = Inr (''<title>Home</title>''
              @ markdownToHTML exEnv (readIncludeFn exEnv) ''\<newline>{{main.go}}[/func/,/return/]'')"
    by (simp add: t)
  ultimately show ?thesis using r l r2 l2 by simp
qed

text \<open>
  What \<^verbatim>\<open>pageHandler\<close> does when no page matches depends on the mode. With
  \<^verbatim>\<open>GAE_APPLICATION\<close> set, a path that is not a key of \<^verbatim>\<open>pages\<close> gives \<^verbatim>\<open>errNoPage\<close>
  and the request goes to the fallback handler. Without it, \<^verbatim>\<open>loadMarkdown\<close> returns the
  error of \<^verbatim>\<open>ioutil.ReadFile\<close>, which is not \<^verbatim>\<open>errNoPage\<close>: the fallback handler is
  never called.
\<close>

lemma hasSuffix_char: "hasSuffix s [c] \<longleftrightarrow> s \<noteq> [] \<and> last s = c"
proof (cases "s = []")
  case True
  then show ?thesis by (simp add: hasSuffix_def)
next
  case False
  then have "s = butlast s @ [last s]" by simp
  then have "drop (length s - 1) s = [last s]"
    by (metis append_eq_conv_conj length_butlast)
  with False show ?thesis by (auto simp: hasSuffix_def Suc_le_eq)
qed



lemma loadMarkdown_not_ErrNoPage: "loadMarkdown E url \<noteq> Inl ErrNoPage"
  by (simp add: loadMarkdown_def Let_def split: sum.splits)

lemma servePage_on_demand: "gaeApplication E = [] \<Longrightarrow> servePage E path \<noteq> Inl ErrNoPage"
  using loadMarkdown_not_ErrNoPage [of E path]
  by (auto simp: servePage_def writePage_def split: sum.splits option.splits)

lemma pageHandler_on_demand_no_fallback:
  "gaeApplication E = [] \<Longrightarrow> pageHandler E urlPath \<noteq> Fallback p"
  using servePage_on_demand [of E "pagePath urlPath"]
  by (auto simp: pageHandler_def Let_def split: sum.splits)

lemma pageHandler_on_demand_missing:
  "gaeApplication E = [] \<Longrightarrow> readFile E (filepathJoin contentRoot (pagePath urlPath @ ''.md'')) = Inl m \<Longrightarrow>
     pageHandler E urlPath = InternalServerError (pagePath urlPath @ '': '' @ m)"
  by (simp add: pageHandler_def servePage_def loadMarkdown_def Let_def)

lemma pageHandler_gae_missing:
  "gaeApplication E \<noteq> [] \<Longrightarrow> pages E (pagePath urlPath) = None \<Longrightarrow>
     pageHandler E urlPath = Fallback urlPath"
  by (simp add: pageHandler_def servePage_def Let_def)

lemma pageHandler_gae_page:
  "gaeApplication E \<noteq> [] \<Longrightarrow> pages E (pagePath urlPath) = Some p \<Longrightarrow> responseWrite E p = None \<Longrightarrow>
     pageHandler E urlPath = Written p"
  by (simp add: pageHandler_def servePage_def writePage_def Let_def)

text \<open>
  C4. "For a request whose path names no page, \<^verbatim>\<open>pageHandler\<close> invokes the fallback
  handler." On demand (\<^verbatim>\<open>GAE_APPLICATION\<close> not set) the code does not: for the path
  \<^verbatim>\<open>/missing\<close>, with no file \<^verbatim>\<open>content/missing.md\<close>, \<^verbatim>\<open>servePage\<close> returns the error of
  reading the file and the handler answers "failed to serve page" with status 500. The
  same request in GAE mode goes to the fallback handler, as the comment on
  \<^verbatim>\<open>pageHandler\<close> says.
\<close>

theorem pageHandler_missing_page_on_demand:
  "gaeApplication exEnv = []
   \<and> readFile exEnv (filepathJoin contentRoot (''/missing'' @ ''.md''))
       = Inl ''open content/missing.md: no such file or directory''
   \<and> servePage exEnv ''/missing'' = Inl (Err ''open content/missing.md: no such file or directory'')
   \<and> pageHandler exEnv ''/missing''
       = InternalServerError ''/missing: open content/missing.md: no such file or directory''
   \<and> pageHandler (exEnv\<lparr>gaeApplication := ''app''\<rparr>) ''/missing'' = Fallback ''/missing''"
proof -
  have g: "gaeApplication exEnv = []" by (simp add: exEnv_def)
  have r: "readFile exEnv (filepathJoin contentRoot (''/missing'' @ ''.md''))
       = Inl ''open content/missing.md: no such file or directory''"
    by (simp add: ex_defs filepathJoin_def filepathClean_def contentRoot_def)
  have p: "pagePath ''/missing'' = ''/missing''" by (simp add: pagePath_def hasSuffix_char)
  from g ex_loadMarkdown_missing
  have s: "servePage exEnv ''/missing'' = Inl (Err ''open content/missing.md: no such file or directory'')"
    by (simp add: servePage_def)
  then have h: "pageHandler exEnv ''/missing''
       = InternalServerError ''/missing: open content/missing.md: no such file or directory''"
    by (simp add: pageHandler_def p)
  have f: "pageHandler (exEnv\<lparr>gaeApplication := ''app''\<rparr>) ''/missing'' = Fallback ''/missing''"
    by (rule pageHandler_gae_missing) (simp_all add: exEnv_def)
  from g r s h f show ?thesis by simp
qed

text \<open>
  C5, as the code has it. A failing include does not make \<^verbatim>\<open>loadMarkdown\<close> fail: the
  closure given to the Markdown parser returns the text of the error as the content to
  splice in, and \<^verbatim>\<open>loadMarkdown\<close> returns the rendered page whenever the page file is
  readable, its front matter parses and the template executes.
\<close>

theorem loadMarkdown_include_error_is_content:
  assumes "readFile E (filepathJoin contentRoot (url @ ''.md'')) = Inr content"
    and "loadPage E content = Inr pg"
    and "executeTemplate E
           (if Title (Front pg) = [] then (Front pg)\<lparr>Title := defaultTitle\<rparr> else Front pg)
           (markdownToHTML E (readIncludeFn E) (Content pg)) = Inr out"
    and "includeExample E path addr = Inl err"
  shows "readIncludeFn E from path addr = errorText err \<and> loadMarkdown E url = Inr out"
  using assms by (simp add: readIncludeFn_def loadMarkdown_def Let_def)

lemma ex_include_missing:
  "includeExample exEnv ''missing.go'' []
     = Inl (Err ''open include/missing.go: no such file or directory'')"
  by (simp add: includeExample_def ex_defs filepathJoin_def filepathClean_def includeRoot_def)

lemma ex_render_doc:
  "markdownToHTML exEnv (readIncludeFn exEnv) ''{{missing.go}}''
     = ''<pre>'' @ readIncludeFn exEnv [] ''missing.go'' [] @ ''</pre>''"
  by (simp add: exEnv_def exToHTML_def)

theorem loadMarkdown_include_error_is_content_witness:
  "readFile exEnv (filepathJoin contentRoot (''/doc/index'' @ ''.md'')) = Inr ''{{missing.go}}''
   \<and> loadPage exEnv ''{{missing.go}}'' = Inr \<lparr>Front = \<lparr>Title = []\<rparr>, Content = ''{{missing.go}}''\<rparr>
   \<and> executeTemplate exEnv \<lparr>Title = defaultTitle\<rparr>
        (markdownToHTML exEnv (readIncludeFn exEnv) ''{{missing.go}}'') = Inr exDocHtml
   \<and> includeExample exEnv ''missing.go'' []
       = Inl (Err ''open include/missing.go: no such file or directory'')
   \<and> readIncludeFn exEnv [] ''missing.go'' [] = ''open include/missing.go: no such file or directory''
   \<and> loadMarkdown exEnv ''/doc/index'' = Inr exDocHtml"
proof -
  have r: "readFile exEnv (filepathJoin contentRoot (''/doc/index'' @ ''.md'')) = Inr ''{{missing.go}}''"
    by (simp add: ex_defs filepathJoin_def filepathClean_def contentRoot_def)
  have l: "loadPage exEnv ''{{missing.go}}''
      = Inr \<lparr>Front = \<lparr>Title = []\<rparr>, Content = ''{{missing.go}}''\<rparr>"
    by (simp add: loadPage_def splitN_def)
  have i: "readIncludeFn exEnv [] ''missing.go'' [] = ''open include/missing.go: no such file or directory''"
    by (simp add: readIncludeFn_def ex_include_missing)
  have t: "executeTemplate exEnv \<lparr>Title = defaultTitle\<rparr>
        (markdownToHTML exEnv (readIncludeFn exEnv) ''{{missing.go}}'') = Inr exDocHtml"
    by (simp add: ex_render_doc i) (simp add: exEnv_def exTemplate_def exDocHtml_def defaultTitle_def)
  from l t have t': "executeTemplate exEnv
       (if Title (Front \<lparr>Front = \<lparr>Title = []\<rparr>, Content = ''{{missing.go}}''\<rparr>) = []
        then (Front \<lparr>Front = \<lparr>Title = []\<rparr>, Content = ''{{missing.go}}''\<rparr>)\<lparr>Title := defaultTitle\<rparr>
        else Front \<lparr>Front = \<lparr>Title = []\<rparr>, Content = ''{{missing.go}}''\<rparr>)
       (markdownToHTML exEnv (readIncludeFn exEnv) (Content \<lparr>Front = \<lparr>Title = []\<rparr>, Content = ''{{missing.go}}''\<rparr>))
       = Inr exDocHtml"
    by simp
  from loadMarkdown_include_error_is_content [OF r l t' ex_include_missing, of "[]"] r l t ex_include_missing
  show ?thesis by simp
qed

text \<open>
  C5 as stated fails: the page \<^verbatim>\<open>content/doc/index.md\<close> includes a file that does not
  exist; \<^verbatim>\<open>includeExample\<close> returns the error, and \<^verbatim>\<open>loadMarkdown\<close> returns a rendered
  page with the text of the error in it.
\<close>

theorem loadMarkdown_include_error_counterexample:
  "includeExample exEnv ''missing.go'' []
     = Inl (Err ''open include/missing.go: no such file or directory'')
   \<and> markdownToHTML exEnv (readIncludeFn exEnv) ''{{missing.go}}''
       = ''<pre>'' @ readIncludeFn exEnv [] ''missing.go'' [] @ ''</pre>''
   \<and> loadMarkdown exEnv ''/doc/index''
       = Inr ''<title>Gio - immediate mode GUI in Go</title><pre>open include/missing.go: no such file or directory</pre>''"
  using ex_include_missing ex_render_doc ex_loadMarkdown_doc by (simp add: exDocHtml_def)




end
